theory Spec2Isabelle
  imports Main "HOL-Library.Word"
begin

unbundle bit_operations_syntax

section \<open>Fast Read Quad I/O example: address reversal and SPI clock divider\<close>

type_synonym uint8_t = "8 word"
type_synonym int8_t = "8 word"
type_synonym uint16_t = "16 word"
type_synonym uint32_t = "32 word"
type_synonym uint64_t = "64 word"

text \<open>
  \<^verbatim>\<open>#define REVERT_24b_ADDR(addr) ((((uint32_t)(addr) & 0xff0000) >> 16)
       | ((uint32_t)(addr) & 0xff00) | (((uint32_t)(addr) & 0xff) << 16))\<close>
\<close>

definition REVERT_24b_ADDR :: "uint32_t \<Rightarrow> uint32_t" where
  "REVERT_24b_ADDR addr =
     (drop_bit 16 (addr AND 0xff0000) OR (addr AND 0xff00) OR push_bit 16 (addr AND 0xff))"

definition FLASH_CLK_MAX_HZ :: uint32_t where
  "FLASH_CLK_MAX_HZ = 133 * 1000 * 1000"

text \<open>
  The clock configuration in \<open>main\<close> of the Quad I/O example:
  \<^verbatim>\<open>
    uint16_t clk_div = 0;
    if(FLASH_CLK_MAX_HZ < core_clk/2){
        clk_div = (core_clk/(FLASH_CLK_MAX_HZ) - 2)/2;
        if (core_clk/(2 + 2 * clk_div) > FLASH_CLK_MAX_HZ) clk_div += 1;
    }
  \<close>
  \<open>core_clk\<close> is a \<open>uint32_t\<close>, so every division is an unsigned 32-bit division;
  the assignment to \<open>clk_div\<close> truncates to 16 bits, and \<open>2 + 2 * clk_div\<close> is
  computed after the integer promotion of \<open>clk_div\<close> (at most \<open>2 + 2 * 65535\<close>, which
  fits) and converted to \<open>uint32_t\<close> for the division.
\<close>

definition spi_clk :: "uint32_t \<Rightarrow> uint16_t \<Rightarrow> uint32_t" where
  "spi_clk core_clk clk_div = core_clk div (2 + 2 * ucast clk_div)"

definition compute_clk_div :: "uint32_t \<Rightarrow> uint16_t" where
  "compute_clk_div core_clk =
     (if FLASH_CLK_MAX_HZ < core_clk div 2 then
        (let clk_div = (ucast ((core_clk div FLASH_CLK_MAX_HZ - 2) div 2) :: uint16_t)
         in if spi_clk core_clk clk_div > FLASH_CLK_MAX_HZ then clk_div + 1 else clk_div)
      else 0)"

section \<open>Fast Read Quad I/O example: command segments\<close>

definition W25Q128JW_CMD_READ_QUADIO :: uint32_t where
  "W25Q128JW_CMD_READ_QUADIO = 0xeb"

text \<open>
  \<open>spi_command_t\<close>, \<open>spi_speed_e\<close> and \<open>spi_dir_e\<close> are declared in \<open>spi_host.h\<close>;
  the fields are the ones \<open>main\<close> initialises. \<open>spi_create_command\<close> packs them into
  the 32-bit command word; here the command register receives the fields themselves.
\<close>

datatype spi_speed_e = kSpiSpeedStandard | kSpiSpeedDual | kSpiSpeedQuad

datatype spi_dir_e = kSpiDirDummy | kSpiDirRxOnly | kSpiDirTxOnly | kSpiDirBidir

record spi_command_t =
  len :: uint32_t
  csaat :: bool
  speed :: spi_speed_e
  direction :: spi_dir_e

text \<open>The SPI host, seen from the program: the operations issued to it, in order.\<close>

datatype spi_op = WriteWord uint32_t | SetCommand spi_command_t | WaitForReady

type_synonym spi_host_t = "spi_op list"

definition spi_write_word :: "uint32_t \<Rightarrow> spi_host_t \<Rightarrow> spi_host_t" where
  "spi_write_word w h = h @ [WriteWord w]"

definition spi_set_command :: "spi_command_t \<Rightarrow> spi_host_t \<Rightarrow> spi_host_t" where
  "spi_set_command c h = h @ [SetCommand c]"

definition spi_wait_for_ready :: "spi_host_t \<Rightarrow> spi_host_t" where
  "spi_wait_for_ready h = h @ [WaitForReady]"

text \<open>
  The Fast Read Quad I/O command of \<open>main\<close>: segment 1 sends the opcode, segment 2 the
  address word \<open>read_byte_cmd\<close>, segment 3 the dummy clocks, segment 4 receives the data.
\<close>

definition fast_read_quadio :: "uint32_t \<Rightarrow> spi_host_t \<Rightarrow> spi_host_t" where
  "fast_read_quadio read_byte_cmd h =
     (let h = spi_write_word W25Q128JW_CMD_READ_QUADIO h;
          h = spi_wait_for_ready h;
          cmd_read = \<lparr>len = 0, csaat = True, speed = kSpiSpeedStandard,
                      direction = kSpiDirTxOnly\<rparr>;
          h = spi_set_command cmd_read h;
          h = spi_wait_for_ready h;
          h = spi_write_word read_byte_cmd h;
          h = spi_wait_for_ready h;
          cmd_address = \<lparr>len = 3, csaat = True, speed = kSpiSpeedQuad,
                         direction = kSpiDirTxOnly\<rparr>;
          h = spi_set_command cmd_address h;
          h = spi_wait_for_ready h;
          dummy_clocks_cmd = \<lparr>len = 7, csaat = True, speed = kSpiSpeedQuad,
                              direction = kSpiDirDummy\<rparr>;
          h = spi_set_command dummy_clocks_cmd h;
          h = spi_wait_for_ready h;
          cmd_read_rx = \<lparr>len = 31, csaat = False, speed = kSpiSpeedQuad,
                         direction = kSpiDirRxOnly\<rparr>;
          h = spi_set_command cmd_read_rx h
      in spi_wait_for_ready h)"

text \<open>The command segments among the operations issued.\<close>

fun segments :: "spi_host_t \<Rightarrow> spi_command_t list" where
  "segments [] = []"
| "segments (SetCommand c # ops) = c # segments ops"
| "segments (_ # ops) = segments ops"

section \<open>Fast Read Quad I/O example: waiting for the SPI interrupt\<close>

text \<open>
  The part of the machine state that the wait loop and the interrupt handler share:
  the global interrupt enable \<open>mstatus.MIE\<close> (bit 3), the two interrupt enables of
  the SPI host, and \<open>spi_intr_flag\<close>. \<open>handler_runs\<close> only counts how often
  \<open>fic_irq_spi\<close> has run.
\<close>

datatype wait_pc =
    Issue      \<comment> \<open>lines 150-262: configuration and the two SPI commands\<close>
  | While      \<comment> \<open>\<^verbatim>\<open>while( spi_intr_flag == 0 )\<close>\<close>
  | ClearMie   \<comment> \<open>\<^verbatim>\<open>CSR_CLEAR_BITS(CSR_REG_MSTATUS, 0x8);\<close>\<close>
  | IfFlag     \<comment> \<open>\<^verbatim>\<open>if( spi_intr_flag == 0 )\<close>\<close>
  | Wfi        \<comment> \<open>\<^verbatim>\<open>wait_for_interrupt();\<close>\<close>
  | SetMie     \<comment> \<open>\<^verbatim>\<open>CSR_SET_BITS(CSR_REG_MSTATUS, 0x8);\<close>\<close>
  | Done       \<comment> \<open>the loop has been left\<close>

record core_state =
  pc :: wait_pc
  mstatus_mie :: bool
  evt_intr_en :: bool
  rxwm_intr_en :: bool
  spi_intr_flag :: int8_t
  handler_runs :: nat

text \<open>
  \<^verbatim>\<open>void fic_irq_spi(void)\<close>: \<open>spi_enable_evt_intr(&spi_host, false)\<close>, then
  \<open>spi_enable_rxwm_intr(&spi_host, false)\<close>, then \<open>spi_intr_flag = 1\<close>.
\<close>

definition fic_irq_spi :: "core_state \<Rightarrow> core_state" where
  "fic_irq_spi s =
     (let s1 = s\<lparr>evt_intr_en := False\<rparr>;
          s2 = s1\<lparr>rxwm_intr_en := False\<rparr>
      in s2\<lparr>spi_intr_flag := 1, handler_runs := handler_runs s + 1\<rparr>)"

text \<open>
  The state after lines 126-148 of \<open>main\<close>: global interrupts enabled, the flag
  cleared, both SPI interrupt sources enabled.
\<close>

definition armed :: core_state where
  "armed = \<lparr>pc = Issue, mstatus_mie = True, evt_intr_en = True, rxwm_intr_en = True,
            spi_intr_flag = 0, handler_runs = 0\<rparr>"

text \<open>
  One step of \<open>main\<close>. Lines 150-262 do not touch the shared state.
  Modelled from the spec: \<open>CSR_CLEAR_BITS\<close>/\<open>CSR_SET_BITS\<close> on \<open>mstatus\<close> bit 3
  disable/enable global interrupts, and \<open>wait_for_interrupt\<close> suspends the core until
  it is woken; the step at \<open>Wfi\<close> is the wake-up.
\<close>

definition main_step :: "core_state \<Rightarrow> core_state" where
  "main_step s =
     (case pc s of
        Issue \<Rightarrow> s\<lparr>pc := While\<rparr>
      | While \<Rightarrow> if spi_intr_flag s = 0 then s\<lparr>pc := ClearMie\<rparr> else s\<lparr>pc := Done\<rparr>
      | ClearMie \<Rightarrow> s\<lparr>mstatus_mie := False, pc := IfFlag\<rparr>
      | IfFlag \<Rightarrow> if spi_intr_flag s = 0 then s\<lparr>pc := Wfi\<rparr> else s\<lparr>pc := SetMie\<rparr>
      | Wfi \<Rightarrow> s\<lparr>pc := SetMie\<rparr>
      | SetMie \<Rightarrow> s\<lparr>mstatus_mie := True, pc := While\<rparr>
      | Done \<Rightarrow> s)"

text \<open>
  Modelled from the spec: the SPI interrupt is taken, and \<open>fic_irq_spi\<close> runs to
  completion before \<open>main\<close> continues, only while global interrupts are enabled and at
  least one of the two sources is enabled; otherwise a request changes nothing.
\<close>

definition irq_step :: "core_state \<Rightarrow> core_state" where
  "irq_step s =
     (if mstatus_mie s \<and> (evt_intr_en s \<or> rxwm_intr_en s) then fic_irq_spi s else s)"

text \<open>
  An execution interleaves steps of \<open>main\<close> with interrupt requests, in any order.
\<close>

datatype choice = Main | Irq

fun step :: "choice \<Rightarrow> core_state \<Rightarrow> core_state" where
  "step Main s = main_step s"
| "step Irq s = irq_step s"

fun exec :: "choice list \<Rightarrow> core_state \<Rightarrow> core_state" where
  "exec [] s = s"
| "exec (c # cs) s = exec cs (step c s)"

text \<open>What holds of the shared state at every point of such an execution.\<close>

definition wait_inv :: "core_state \<Rightarrow> bool" where
  "wait_inv s \<longleftrightarrow>
     (mstatus_mie s \<longleftrightarrow> pc s \<notin> {IfFlag, Wfi, SetMie}) \<and>
     (pc s = Wfi \<longrightarrow> spi_intr_flag s = 0) \<and>
     (if handler_runs s = 0 then spi_intr_flag s = 0 \<and> evt_intr_en s \<and> rxwm_intr_en s
      else handler_runs s = 1 \<and> spi_intr_flag s = 1 \<and> \<not> evt_intr_en s \<and> \<not> rxwm_intr_en s)"

section \<open>Flash profiling application: data model\<close>

text \<open>
  \<open>error_codes_t\<close> is declared in \<open>w25q128jw.h\<close>; the application only tests
  \<open>status != FLASH_OK\<close>, so every other enumerator is \<open>FLASH_ERROR k\<close> here.
\<close>

datatype error_codes_t = FLASH_OK | FLASH_ERROR nat

definition EXIT_SUCCESS :: int where
  "EXIT_SUCCESS = 0"

definition EXIT_FAILURE :: int where
  "EXIT_FAILURE = 1"

definition MAX_TEST_BUF_LEN :: nat where
  "MAX_TEST_BUF_LEN = 1024"

datatype flash_speed = Standard | Quad

datatype flash_op = WriteOp | ReadOp

text \<open>
  The observable actions of a run, in program order: raw timer register writes, timer
  enable/disable, timer reads, flash driver calls, and the \<open>printf\<close> lines.
  \<open>Checked sp i e\<close> marks the end of the verification loop of length \<open>i\<close> (the point
  \<^verbatim>\<open>if (errors > 0) flag = 1;\<close>) with its error count \<open>e\<close>.
\<close>

datatype event =
    TimerWriteLower uint32_t
  | TimerWriteUpper uint32_t
  | TimerSetEnabled bool
  | TimerRead uint64_t
  | FlashCall flash_op flash_speed nat
  | PrintTicks flash_op uint64_t
  | PrintMismatch nat nat uint32_t uint32_t
  | Checked flash_speed nat uint32_t
  | PrintVerdict bool

record rv_timer =
  lower :: uint32_t
  upper :: uint32_t
  enabled :: bool

text \<open>
  The flash driver (\<open>w25q128jw_*\<close>) and the timer hardware are outside the two
  applications. One run calls each driver function at most once per transfer length and
  speed, so the driver's behaviour in a run is a table indexed by speed and length: the
  status it returns, the contents of \<open>flash_data_32\<close> it leaves behind after a read
  (as a function of the contents before the call), and the number of timer ticks that
  pass while the call runs.
\<close>

record driver =
  init_status :: error_codes_t
  write_status :: "flash_speed \<Rightarrow> nat \<Rightarrow> error_codes_t"
  read_status :: "flash_speed \<Rightarrow> nat \<Rightarrow> error_codes_t"
  read_data :: "flash_speed \<Rightarrow> nat \<Rightarrow> uint32_t list \<Rightarrow> uint32_t list"
  op_ticks :: "flash_op \<Rightarrow> flash_speed \<Rightarrow> nat \<Rightarrow> uint64_t"
  timer_after_init :: rv_timer

record prof_state =
  timer_0_1 :: rv_timer
  flash_data_32 :: "uint32_t list"
  errors :: uint32_t
  flag :: uint32_t
  trace :: "event list"

definition emit :: "event list \<Rightarrow> prof_state \<Rightarrow> prof_state" where
  "emit es s = s\<lparr>trace := trace s @ es\<rparr>"

subsection \<open>Timer\<close>

text \<open>
  \<^verbatim>\<open>static void reset_timer(uint32_t hart_id)\<close>: two raw 32-bit register writes, to
  \<open>TIMER_V_LOWER0\<close> and then to \<open>TIMER_V_UPPER0\<close>.
\<close>

definition reset_timer :: "prof_state \<Rightarrow> prof_state" where
  "reset_timer s =
     emit [TimerWriteLower 0, TimerWriteUpper 0]
       (s\<lparr>timer_0_1 := (timer_0_1 s)\<lparr>lower := 0, upper := 0\<rparr>\<rparr>)"

text \<open>
  Modelled from the spec: \<open>rv_timer_counter_set_enabled\<close> belongs to the timer driver,
  which is not part of the two applications. The spec's timer service: enable/disable
  counting per hardware thread.
\<close>

definition rv_timer_counter_set_enabled :: "bool \<Rightarrow> prof_state \<Rightarrow> prof_state" where
  "rv_timer_counter_set_enabled b s =
     emit [TimerSetEnabled b] (s\<lparr>timer_0_1 := (timer_0_1 s)\<lparr>enabled := b\<rparr>\<rparr>)"

text \<open>
  Modelled from the spec: the counter is the 64-bit value whose halves are the lower and
  upper raw counter registers (the registers \<open>reset_timer\<close> writes).
\<close>

definition counter_value :: "rv_timer \<Rightarrow> uint64_t" where
  "counter_value t = push_bit 32 (ucast (upper t)) OR ucast (lower t)"

definition set_counter :: "uint64_t \<Rightarrow> rv_timer \<Rightarrow> rv_timer" where
  "set_counter v t = t\<lparr>lower := ucast v, upper := ucast (drop_bit 32 v)\<rparr>"

text \<open>
  Modelled from the spec: the tick counter is free-running hardware; while \<open>n\<close> ticks
  of time pass it advances by \<open>n\<close> if counting is enabled and stands still otherwise.
\<close>

definition elapse :: "uint64_t \<Rightarrow> rv_timer \<Rightarrow> rv_timer" where
  "elapse n t = (if enabled t then set_counter (counter_value t + n) t else t)"

definition pass_time :: "uint64_t \<Rightarrow> prof_state \<Rightarrow> prof_state" where
  "pass_time n s = s\<lparr>timer_0_1 := elapse n (timer_0_1 s)\<rparr>"

text \<open>
  Modelled from the spec: \<open>rv_timer_counter_read\<close> belongs to the timer driver; it reads
  the elapsed-tick count as a 64-bit value.
\<close>

definition rv_timer_counter_read :: "prof_state \<Rightarrow> uint64_t \<times> prof_state" where
  "rv_timer_counter_read s =
     (let v = counter_value (timer_0_1 s) in (v, emit [TimerRead v] s))"

subsection \<open>Flash driver calls\<close>

definition flash_write :: "driver \<Rightarrow> flash_speed \<Rightarrow> nat \<Rightarrow> prof_state \<Rightarrow> error_codes_t \<times> prof_state" where
  "flash_write drv sp i s =
     (write_status drv sp i,
      pass_time (op_ticks drv WriteOp sp i) (emit [FlashCall WriteOp sp i] s))"

definition flash_read :: "driver \<Rightarrow> flash_speed \<Rightarrow> nat \<Rightarrow> prof_state \<Rightarrow> error_codes_t \<times> prof_state" where
  "flash_read drv sp i s =
     (read_status drv sp i,
      pass_time (op_ticks drv ReadOp sp i)
        ((emit [FlashCall ReadOp sp i] s)
           \<lparr>flash_data_32 := read_data drv sp i (flash_data_32 s)\<rparr>))"

subsection \<open>Verification of the read-back buffer\<close>

text \<open>
  The object representation of a \<open>uint32_t\<close> on the little-endian RISC-V target, and
  \<open>memcpy\<close> on such representations: the first \<open>n\<close> bytes of the destination are
  replaced by the first \<open>n\<close> bytes of the source.
\<close>

definition word_bytes :: "uint32_t \<Rightarrow> uint8_t list" where
  "word_bytes w = [ucast w, ucast (drop_bit 8 w), ucast (drop_bit 16 w), ucast (drop_bit 24 w)]"

fun bytes_word :: "uint8_t list \<Rightarrow> uint32_t" where
  "bytes_word [] = 0"
| "bytes_word (b # bs) = ucast b OR push_bit 8 (bytes_word bs)"

definition memcpy :: "uint8_t list \<Rightarrow> uint8_t list \<Rightarrow> nat \<Rightarrow> uint8_t list" where
  "memcpy dst src n = take n src @ drop n dst"

text \<open>
  \<^verbatim>\<open>uint32_t last_bytes = 0; memcpy(&last_bytes, &test_buffer_check[j], i % 4);\<close>
\<close>

definition last_bytes :: "uint32_t \<Rightarrow> nat \<Rightarrow> uint32_t" where
  "last_bytes src n = bytes_word (memcpy (word_bytes 0) (word_bytes src) n)"

text \<open>The loop bound \<^verbatim>\<open>(i%4==0 ? i/4 : i/4+1)\<close>; \<open>i\<close> is positive throughout.\<close>

definition check_words :: "nat \<Rightarrow> nat" where
  "check_words i = (if i mod 4 = 0 then i div 4 else i div 4 + 1)"

text \<open>
  The inner loop \<^verbatim>\<open>for (int j=0; j < (i%4==0 ? i/4 : i/4+1); j++)\<close> over
  \<open>flash_data_check\<close> (the read-back buffer) and \<open>test_buffer_check\<close> (the reference),
  carrying the local counter \<open>errors\<close> and the lines printed so far. In the program
  \<open>j\<close> is at most 255 and both arrays hold at least 256 words, so every read is in
  range.
\<close>

function verify_loop ::
  "nat \<Rightarrow> uint32_t list \<Rightarrow> uint32_t list \<Rightarrow> nat \<Rightarrow> uint32_t \<Rightarrow> event list \<Rightarrow> uint32_t \<times> event list" where
  "verify_loop i flash_data_check test_buffer_check j errs out =
     (if j < check_words i then
        (if j < i div 4 then
           (if flash_data_check ! j \<noteq> test_buffer_check ! j then
              verify_loop i flash_data_check test_buffer_check (j + 1) (errs + 1)
                (out @ [PrintMismatch i j (flash_data_check ! j) (test_buffer_check ! j)])
            else verify_loop i flash_data_check test_buffer_check (j + 1) errs out)
         else
           (let lb = last_bytes (test_buffer_check ! j) (i mod 4) in
            if flash_data_check ! j \<noteq> lb then
              verify_loop i flash_data_check test_buffer_check (j + 1) (errs + 1)
                (out @ [PrintMismatch i j (flash_data_check ! j) lb])
            else verify_loop i flash_data_check test_buffer_check (j + 1) errs out))
      else (errs, out))"
  by pat_completeness auto
termination
  by (relation "measure (\<lambda>(i, a, e, j, r). check_words i - j)") auto

definition verify :: "nat \<Rightarrow> uint32_t list \<Rightarrow> uint32_t list \<Rightarrow> uint32_t \<times> event list" where
  "verify i flash_data_check test_buffer_check =
     verify_loop i flash_data_check test_buffer_check 0 0 []"

subsection \<open>The two profiling passes and \<open>main\<close>\<close>

text \<open>
  A \<open>return\<close> from inside a loop is \<open>Inl (exit code, state at the return)\<close>; falling
  through to the next statement is \<open>Inr state\<close>.

  The timed write of one iteration (reset, start, driver call, stop, status check, read
  and print of the timer value).
\<close>

definition timed_write ::
  "driver \<Rightarrow> flash_speed \<Rightarrow> nat \<Rightarrow> prof_state \<Rightarrow> (int \<times> prof_state) + prof_state" where
  "timed_write drv sp i s =
     (let s1 = reset_timer s;
          s2 = rv_timer_counter_set_enabled True s1;
          (status, s3) = flash_write drv sp i s2;
          s4 = rv_timer_counter_set_enabled False s3
      in if status \<noteq> FLASH_OK then Inl (EXIT_FAILURE, s4)
         else (let (timer_value, s5) = rv_timer_counter_read s4
               in Inr (emit [PrintTicks WriteOp timer_value] s5)))"

definition timed_read ::
  "driver \<Rightarrow> flash_speed \<Rightarrow> nat \<Rightarrow> prof_state \<Rightarrow> (int \<times> prof_state) + prof_state" where
  "timed_read drv sp i s =
     (let s1 = reset_timer s;
          s2 = rv_timer_counter_set_enabled True s1;
          (status, s3) = flash_read drv sp i s2;
          s4 = rv_timer_counter_set_enabled False s3
      in if status \<noteq> FLASH_OK then Inl (EXIT_FAILURE, s4)
         else (let (timer_value, s5) = rv_timer_counter_read s4
               in Inr (emit [PrintTicks ReadOp timer_value] s5)))"

text \<open>
  The check at the end of an iteration. The counter \<open>errors\<close> declared inside the loop
  body shadows the one declared at the top of \<open>main\<close>: the verification counts in the
  inner one, sets \<open>flag\<close> from it, and the outer one (the field \<open>errors\<close> of the state)
  is not written.
\<close>

definition check_iteration ::
  "uint32_t list \<Rightarrow> flash_speed \<Rightarrow> nat \<Rightarrow> prof_state \<Rightarrow> prof_state" where
  "check_iteration test_buffer sp i s =
     (let (inner_errors, out) = verify i (flash_data_32 s) test_buffer;
          s1 = emit (out @ [Checked sp i inner_errors]) s
      in if inner_errors > 0 then s1\<lparr>flag := 1\<rparr> else s1)"

definition iteration ::
  "driver \<Rightarrow> uint32_t list \<Rightarrow> flash_speed \<Rightarrow> nat \<Rightarrow> prof_state \<Rightarrow> (int \<times> prof_state) + prof_state" where
  "iteration drv test_buffer sp i s =
     (case timed_write drv sp i s of
        Inl r \<Rightarrow> Inl r
      | Inr s1 \<Rightarrow>
          (case timed_read drv sp i s1 of
             Inl r \<Rightarrow> Inl r
           | Inr s2 \<Rightarrow> Inr (check_iteration test_buffer sp i s2)))"

text \<open>\<^verbatim>\<open>for (int i = ...; i <= MAX_TEST_BUF_LEN; i++) { ... }\<close>, entered with the given \<open>i\<close>.\<close>

function profile_loop ::
  "driver \<Rightarrow> uint32_t list \<Rightarrow> flash_speed \<Rightarrow> nat \<Rightarrow> prof_state \<Rightarrow> (int \<times> prof_state) + prof_state" where
  "profile_loop drv test_buffer sp i s =
     (if i \<le> MAX_TEST_BUF_LEN then
        (case iteration drv test_buffer sp i s of
           Inl r \<Rightarrow> Inl r
         | Inr s' \<Rightarrow> profile_loop drv test_buffer sp (i + 1) s')
      else Inr s)"
  by pat_completeness auto
termination
  by (relation "measure (\<lambda>(drv, tb, sp, i, s). Suc MAX_TEST_BUF_LEN - i)") auto

text \<open>
  The state when the first loop is entered: \<open>flash_data_32\<close> is a zero-initialised
  global of \<open>MAX_TEST_BUF_LEN\<close> words, \<open>errors\<close> and \<open>flag\<close> are 0.
\<close>

definition initial_state :: "driver \<Rightarrow> prof_state" where
  "initial_state drv =
     \<lparr>timer_0_1 = timer_after_init drv,
      flash_data_32 = replicate MAX_TEST_BUF_LEN 0,
      errors = 0, flag = 0, trace = []\<rparr>"

definition main_profiling :: "driver \<Rightarrow> uint32_t list \<Rightarrow> int \<times> prof_state" where
  "main_profiling drv test_buffer =
     (let s0 = initial_state drv in
      if init_status drv \<noteq> FLASH_OK then (EXIT_FAILURE, s0)
      else
        (case profile_loop drv test_buffer Standard 1 s0 of
           Inl r \<Rightarrow> r
         | Inr s1 \<Rightarrow>
             (case profile_loop drv test_buffer Quad 1 s1 of
                Inl r \<Rightarrow> r
              | Inr s2 \<Rightarrow>
                  if errors s2 = 0 then (EXIT_SUCCESS, emit [PrintVerdict True] s2)
                  else (EXIT_FAILURE, emit [PrintVerdict False] s2))))"

text \<open>Projections of a trace: the driver calls, and the iterations whose check ran.\<close>

fun flash_calls :: "event list \<Rightarrow> (flash_op \<times> flash_speed \<times> nat) list" where
  "flash_calls [] = []"
| "flash_calls (FlashCall opn sp i # es) = (opn, sp, i) # flash_calls es"
| "flash_calls (_ # es) = flash_calls es"

fun checked_iterations :: "event list \<Rightarrow> (flash_speed \<times> nat) list" where
  "checked_iterations [] = []"
| "checked_iterations (Checked sp i e # es) = (sp, i) # checked_iterations es"
| "checked_iterations (_ # es) = checked_iterations es"

fun timer_reads :: "event list \<Rightarrow> uint64_t list" where
  "timer_reads [] = []"
| "timer_reads (TimerRead v # es) = v # timer_reads es"
| "timer_reads (_ # es) = timer_reads es"

text \<open>The driver calls of the iterations \<open>i, ..., k - 1\<close> of one loop, in order.\<close>

definition calls_of :: "flash_speed \<Rightarrow> nat \<Rightarrow> nat \<Rightarrow> (flash_op \<times> flash_speed \<times> nat) list" where
  "calls_of sp i k = concat (map (\<lambda>j. [(WriteOp, sp, j), (ReadOp, sp, j)]) [i..<k])"

definition iterations_of :: "flash_speed \<Rightarrow> nat \<Rightarrow> nat \<Rightarrow> (flash_speed \<times> nat) list" where
  "iterations_of sp i k = map (\<lambda>j. (sp, j)) [i..<k]"

text \<open>
  What a piece of the program did: the exit code if it returned from \<open>main\<close>, and the
  trace up to that point.
\<close>

definition outcome :: "(int \<times> prof_state) + prof_state \<Rightarrow> int option \<times> event list" where
  "outcome r = (case r of Inl (code, s) \<Rightarrow> (Some code, trace s) | Inr s \<Rightarrow> (None, trace s))"

text \<open>
  Three drivers to run the program on. With \<open>stuck_driver\<close> every call returns
  \<open>FLASH_OK\<close> but a read leaves \<open>flash_data_32\<close> as it was (all zero).
  With \<open>failing_driver\<close> the standard-speed write of length 2 returns an error and a
  read stores 1 in the first word of \<open>flash_data_32\<close>.
  With \<open>quad_failing_driver\<close> the quad-speed read of length 1 returns an error.
\<close>

definition stuck_driver :: driver where
  "stuck_driver =
     \<lparr>init_status = FLASH_OK,
      write_status = (\<lambda>sp i. FLASH_OK),
      read_status = (\<lambda>sp i. FLASH_OK),
      read_data = (\<lambda>sp i buf. buf),
      op_ticks = (\<lambda>opn sp i. 7),
      timer_after_init = \<lparr>lower = 0, upper = 0, enabled = False\<rparr>\<rparr>"

definition quad_failing_driver :: driver where
  "quad_failing_driver =
     \<lparr>init_status = FLASH_OK,
      write_status = (\<lambda>sp i. FLASH_OK),
      read_status = (\<lambda>sp i. if sp = Quad \<and> i = 1 then FLASH_ERROR 2 else FLASH_OK),
      read_data = (\<lambda>sp i buf. buf),
      op_ticks = (\<lambda>opn sp i. 7),
      timer_after_init = \<lparr>lower = 0, upper = 0, enabled = False\<rparr>\<rparr>"

definition failing_driver :: driver where
  "failing_driver =
     \<lparr>init_status = FLASH_OK,
      write_status = (\<lambda>sp i. if sp = Standard \<and> i = 2 then FLASH_ERROR 1 else FLASH_OK),
      read_status = (\<lambda>sp i. FLASH_OK),
      read_data = (\<lambda>sp i buf. buf[0 := 1]),
      op_ticks = (\<lambda>opn sp i. 7),
      timer_after_init = \<lparr>lower = 0, upper = 0, enabled = False\<rparr>\<rparr>"

text \<open>The driver calls of an iteration that ends in a driver error: the last one failed.\<close>

definition failing_calls :: "driver \<Rightarrow> flash_speed \<Rightarrow> nat \<Rightarrow> (flash_op \<times> flash_speed \<times> nat) list" where
  "failing_calls drv sp k =
     (if write_status drv sp k \<noteq> FLASH_OK then [(WriteOp, sp, k)]
      else [(WriteOp, sp, k), (ReadOp, sp, k)])"

subsection \<open>The verification as the specification words it\<close>

text \<open>
  The reference word of index \<open>j\<close> for a length of \<open>L\<close> bytes: the expected word itself
  for \<open>j < L / 4\<close>; for the final partial word, the \<open>L mod 4\<close> valid expected bytes
  followed by zero bytes.
\<close>

definition spec_reference_word :: "nat \<Rightarrow> uint32_t list \<Rightarrow> nat \<Rightarrow> uint32_t" where
  "spec_reference_word L expected j =
     (if j < L div 4 then expected ! j
      else bytes_word (take (L mod 4) (word_bytes (expected ! j)) @ replicate (4 - L mod 4) 0))"

definition spec_mismatches :: "nat \<Rightarrow> uint32_t list \<Rightarrow> uint32_t list \<Rightarrow> nat list" where
  "spec_mismatches L actual expected =
     filter (\<lambda>j. actual ! j \<noteq> spec_reference_word L expected j) [0..<(L + 3) div 4]"

text \<open>The line printed for a mismatch at index \<open>j\<close>.\<close>

definition mismatch_line :: "nat \<Rightarrow> uint32_t list \<Rightarrow> uint32_t list \<Rightarrow> nat \<Rightarrow> event" where
  "mismatch_line L actual expected j =
     PrintMismatch L j (actual ! j) (spec_reference_word L expected j)"

section \<open>Properties\<close>

subsection \<open>Address byte reversal\<close>

lemma mask_ff0000: "(0xff0000 :: uint32_t) = push_bit 16 (mask 8)"
  by (simp add: mask_eq_exp_minus_1)

lemma mask_ff00: "(0xff00 :: uint32_t) = push_bit 8 (mask 8)"
  by (simp add: mask_eq_exp_minus_1)

lemma mask_ff: "(0xff :: uint32_t) = mask 8"
  by (simp add: mask_eq_exp_minus_1)

lemma revert_bit_iff:
  "bit (REVERT_24b_ADDR a) n \<longleftrightarrow>
     (n < 8 \<and> bit a (16 + n)) \<or> (8 \<le> n \<and> n < 16 \<and> bit a n) \<or>
     (16 \<le> n \<and> n < 24 \<and> bit a (n - 16))"
  unfolding REVERT_24b_ADDR_def mask_ff0000 mask_ff00 mask_ff
  by (auto simp add: bit_simps dest: bit_imp_le_length)

lemma addr24_high_bits_clear:
  fixes a :: uint32_t
  assumes a: "a < 2 ^ 24" and m: "24 \<le> m"
  shows "\<not> bit a m"
proof
  assume b: "bit a m"
  have e: "take_bit 24 a = a"
    using less_mask_eq [OF a] by (simp only: take_bit_eq_mask)
  have "\<not> bit (take_bit 24 a) m"
    using m by (simp add: bit_take_bit_iff)
  then have "\<not> bit a m" unfolding e .
  with b show False by blast
qed

text \<open>
  C7. Reversing the byte order of a 24-bit address twice gives the address back:
  for every \<open>a < 2 ^ 24\<close>, \<open>REVERT_24b_ADDR (REVERT_24b_ADDR a) = a\<close>.
\<close>

theorem revert_24b_addr_involution:
  "a < 2 ^ 24 \<Longrightarrow> REVERT_24b_ADDR (REVERT_24b_ADDR a) = a"
proof (rule bit_word_eqI)
  fix n assume a: "a < 2 ^ 24" and n: "n < LENGTH(32)"
  consider "n < 8" | "8 \<le> n" "n < 16" | "16 \<le> n" "n < 24" | "24 \<le> n" by linarith
  then show "bit (REVERT_24b_ADDR (REVERT_24b_ADDR a)) n = bit a n"
  proof cases
    case 1 then show ?thesis by (simp add: revert_bit_iff)
  next
    case 2 then show ?thesis by (simp add: revert_bit_iff)
  next
    case 3 then show ?thesis by (auto simp add: revert_bit_iff)
  next
    case 4 then show ?thesis
      using addr24_high_bits_clear[OF a, of n] by (simp add: revert_bit_iff)
  qed
qed

theorem revert_24b_addr_involution_witness:
  "(0x123456 :: uint32_t) < 2 ^ 24 \<and> REVERT_24b_ADDR 0x123456 = 0x563412 \<and>
   REVERT_24b_ADDR (REVERT_24b_ADDR 0x123456) = 0x123456"
proof -
  have h: "(0x123456 :: uint32_t) < 2 ^ 24" by simp
  have "REVERT_24b_ADDR 0x123456 = 0x563412" by (simp add: REVERT_24b_ADDR_def)
  with h revert_24b_addr_involution [OF h] show ?thesis by simp
qed

subsection \<open>SPI clock divider\<close>

lemma div_after_increment:
  fixes c M :: nat
  assumes M: "0 < M" and c: "M < c div 2"
  shows "c div (2 + 2 * ((c div M - 2) div 2 + 1)) \<le> M"
proof -
  let ?q = "c div M"
  let ?d = "(?q - 2) div 2"
  have "2 * M \<le> c" using c by linarith
  then have q2: "2 \<le> ?q" using M by (simp add: less_eq_div_iff_mult_less_eq)
  have aux: "q + 1 \<le> 2 + 2 * ((q - 2) div 2 + 1)" if "2 \<le> q" for q :: nat
    using that by presburger
  have "?q + 1 \<le> 2 + 2 * (?d + 1)" using q2 by (rule aux)
  moreover have "c < (?q + 1) * M"
    using M dividend_less_div_times[of M c] by (simp add: algebra_simps)
  ultimately have "c < (2 + 2 * (?d + 1)) * M"
    by (meson less_le_trans mult_le_mono1)
  then have "c < M * (2 + 2 * (?d + 1))"
    by (simp only: mult.commute)
  then have "c div (2 + 2 * (?d + 1)) < M"
    by (rule less_mult_imp_div_less)
  then show ?thesis by simp
qed

lemma unat_FLASH: "unat FLASH_CLK_MAX_HZ = 133000000"
  by (simp add: FLASH_CLK_MAX_HZ_def)

lemma unat_spi_clk:
  "unat (spi_clk c d) = unat c div (2 + 2 * unat d)"
proof -
  have d: "unat d < 2 ^ 16" using unsigned_less[of d] by simp
  have d32: "unat d < 2 ^ 32" using d by simp
  have u: "unat (ucast d :: uint32_t) = unat d"
    using d32 by (simp add: unsigned_ucast_eq take_bit_nat_eq_self)
  have "unat (2 * (ucast d :: uint32_t)) = 2 * unat d"
    using d u by (simp add: unat_word_ariths)
  then have "unat (2 + 2 * (ucast d :: uint32_t)) = 2 + 2 * unat d"
    using d by (simp add: unat_word_ariths)
  then show ?thesis by (simp add: spi_clk_def unat_div)
qed

lemma unat_truncated_quotient:
  assumes "FLASH_CLK_MAX_HZ < c div 2"
  shows "unat (ucast ((c div FLASH_CLK_MAX_HZ - 2) div 2) :: uint16_t) = (unat c div 133000000 - 2) div 2"
proof -
  have c: "unat c < 2 ^ 32" using unsigned_less[of c] by simp
  have "133000000 < unat c div 2"
    using assms by (simp add: word_less_nat_alt unat_div unat_FLASH)
  then have q2: "2 \<le> unat c div 133000000" by linarith
  have q: "unat (c div FLASH_CLK_MAX_HZ) = unat c div 133000000"
    by (simp add: unat_div unat_FLASH)
  have "(2 :: uint32_t) \<le> c div FLASH_CLK_MAX_HZ"
    using q2 by (simp add: word_le_nat_alt q)
  then have "unat (c div FLASH_CLK_MAX_HZ - 2) = unat c div 133000000 - 2"
    by (simp add: unat_sub q)
  then have e: "unat ((c div FLASH_CLK_MAX_HZ - 2) div 2) = (unat c div 133000000 - 2) div 2"
    by (simp add: unat_div)
  have "(unat c div 133000000 - 2) div 2 < 2 ^ 16" using c by simp
  then show ?thesis
    by (simp add: unsigned_ucast_eq take_bit_nat_eq_self e)
qed

text \<open>
  C10. Whenever the divider is computed at all (\<open>FLASH_CLK_MAX_HZ < core_clk / 2\<close>),
  the resulting SPI clock \<open>core_clk / (2 + 2 * clk_div)\<close> does not exceed
  \<open>FLASH_CLK_MAX_HZ\<close>: the truncated quotient with at most one increment is enough.
\<close>

theorem clk_div_respects_flash_max:
  assumes "FLASH_CLK_MAX_HZ < core_clk div 2"
  shows "spi_clk core_clk (compute_clk_div core_clk) \<le> FLASH_CLK_MAX_HZ"
proof -
  define d :: uint16_t where "d = ucast ((core_clk div FLASH_CLK_MAX_HZ - 2) div 2)"
  have ud: "unat d = (unat core_clk div 133000000 - 2) div 2"
    unfolding d_def by (rule unat_truncated_quotient[OF assms])
  have c: "unat core_clk < 2 ^ 32" using unsigned_less[of core_clk] by simp
  have dsmall: "unat d < 16" unfolding ud using c by simp
  show ?thesis
  proof (cases "spi_clk core_clk d > FLASH_CLK_MAX_HZ")
    case False
    then show ?thesis using assms by (simp add: compute_clk_div_def d_def Let_def)
  next
    case True
    have ud1: "unat (d + 1) = unat d + 1"
      using dsmall by (simp add: unat_word_ariths)
    have "133000000 < unat core_clk div 2"
      using assms by (simp add: word_less_nat_alt unat_div unat_FLASH)
    then have "unat core_clk div (2 + 2 * ((unat core_clk div 133000000 - 2) div 2 + 1)) \<le> 133000000"
      by (intro div_after_increment) simp_all
    then have "spi_clk core_clk (d + 1) \<le> FLASH_CLK_MAX_HZ"
      by (simp add: word_le_nat_alt unat_spi_clk ud1 ud unat_FLASH)
    with True show ?thesis using assms by (simp add: compute_clk_div_def d_def Let_def)
  qed
qed

theorem clk_div_respects_flash_max_witness:
  "FLASH_CLK_MAX_HZ < 600000000 div 2 \<and> compute_clk_div 600000000 = 2 \<and>
   spi_clk 600000000 (compute_clk_div 600000000) \<le> FLASH_CLK_MAX_HZ"
proof -
  have h: "FLASH_CLK_MAX_HZ < 600000000 div 2" by (simp add: FLASH_CLK_MAX_HZ_def)
  have "compute_clk_div 600000000 = 2"
    by (simp add: compute_clk_div_def spi_clk_def FLASH_CLK_MAX_HZ_def Let_def)
  with h clk_div_respects_flash_max [OF h] show ?thesis by simp
qed

subsection \<open>Command segments of the Fast Read Quad I/O transaction\<close>

lemma segments_append: "segments (xs @ ys) = segments xs @ segments ys"
  by (induction xs rule: segments.induct) simp_all

text \<open>
  C8. The Fast Read Quad I/O transaction issues four segments, in the order opcode
  (transmit), address (transmit), dummy clocks, data (receive). Every segment before the
  final data segment has \<open>csaat\<close> set, and the final data segment has it cleared.
\<close>

theorem quadio_segments_hold_chip_select:
  "segments (fast_read_quadio read_byte_cmd h) =
     segments h @
     [\<lparr>len = 0, csaat = True, speed = kSpiSpeedStandard, direction = kSpiDirTxOnly\<rparr>,
      \<lparr>len = 3, csaat = True, speed = kSpiSpeedQuad, direction = kSpiDirTxOnly\<rparr>,
      \<lparr>len = 7, csaat = True, speed = kSpiSpeedQuad, direction = kSpiDirDummy\<rparr>,
      \<lparr>len = 31, csaat = False, speed = kSpiSpeedQuad, direction = kSpiDirRxOnly\<rparr>] \<and>
   map direction (drop (length (segments h)) (segments (fast_read_quadio read_byte_cmd h))) =
     [kSpiDirTxOnly, kSpiDirTxOnly, kSpiDirDummy, kSpiDirRxOnly] \<and>
   map csaat (butlast (drop (length (segments h)) (segments (fast_read_quadio read_byte_cmd h)))) =
     [True, True, True] \<and>
   csaat (last (drop (length (segments h)) (segments (fast_read_quadio read_byte_cmd h)))) = False"
  by (simp add: fast_read_quadio_def spi_write_word_def spi_set_command_def
      spi_wait_for_ready_def segments_append Let_def)

subsection \<open>The wait loop and the interrupt handler\<close>

lemma wait_inv_armed: "wait_inv armed"
  by (simp add: wait_inv_def armed_def)

lemma wait_inv_main_step: "wait_inv s \<Longrightarrow> wait_inv (main_step s)"
  by (cases "pc s") (auto simp add: wait_inv_def main_step_def split: if_splits)

lemma wait_inv_irq_step: "wait_inv s \<Longrightarrow> wait_inv (irq_step s)"
  by (auto simp add: wait_inv_def irq_step_def fic_irq_spi_def Let_def split: if_splits)

lemma wait_inv_step: "wait_inv s \<Longrightarrow> wait_inv (step c s)"
  by (cases c) (simp_all add: wait_inv_main_step wait_inv_irq_step)

lemma wait_inv_exec: "wait_inv s \<Longrightarrow> wait_inv (exec cs s)"
  by (induction cs arbitrary: s) (simp_all add: wait_inv_step)

text \<open>
  C4. In every execution of the wait loop, interleaved in any way with interrupt
  requests: the core is at \<open>wait_for_interrupt\<close> only with the flag still unset and
  global interrupts disabled; the flag is checked with global interrupts disabled, during
  which no handler runs; global interrupts are enabled again when the loop condition is
  evaluated next. The handler disables both interrupt sources and sets the flag, so it
  runs at most once, and the flag is set exactly when it has run.
\<close>

theorem wait_loop_suspends_only_unsignalled:
  "(pc (exec cs armed) = Wfi \<longrightarrow>
      spi_intr_flag (exec cs armed) = 0 \<and> \<not> mstatus_mie (exec cs armed)) \<and>
   (pc (exec cs armed) = IfFlag \<longrightarrow> \<not> mstatus_mie (exec cs armed)) \<and>
   (pc (exec cs armed) = While \<longrightarrow> mstatus_mie (exec cs armed)) \<and>
   (\<not> mstatus_mie (exec cs armed) \<longrightarrow> irq_step (exec cs armed) = exec cs armed) \<and>
   handler_runs (exec cs armed) \<le> 1 \<and>
   (spi_intr_flag (exec cs armed) \<noteq> 0 \<longleftrightarrow> handler_runs (exec cs armed) = 1) \<and>
   (handler_runs (exec cs armed) = 1 \<longrightarrow>
      \<not> evt_intr_en (exec cs armed) \<and> \<not> rxwm_intr_en (exec cs armed))"
proof -
  have "wait_inv (exec cs armed)"
    by (rule wait_inv_exec[OF wait_inv_armed])
  then show ?thesis
    by (auto simp add: wait_inv_def irq_step_def split: if_splits)
qed

theorem wait_loop_suspends_only_unsignalled_witness:
  "pc (exec [Main, Main, Main, Main] armed) = Wfi \<and>
   spi_intr_flag (exec [Main, Main, Main, Main] armed) = 0 \<and>
   \<not> mstatus_mie (exec [Main, Main, Main, Main] armed) \<and>
   irq_step (exec [Main, Main, Main, Main] armed) = exec [Main, Main, Main, Main] armed \<and>
   pc (exec [Main, Main, Main] armed) = IfFlag \<and>
   \<not> mstatus_mie (exec [Main, Main, Main] armed) \<and>
   pc (exec [Main, Main, Main, Irq, Main, Main, Irq, Main, Irq] armed) = While \<and>
   mstatus_mie (exec [Main, Main, Main, Irq, Main, Main, Irq, Main, Irq] armed) \<and>
   handler_runs (exec [Main, Main, Main, Irq, Main, Main, Irq, Main, Irq] armed) = 1 \<and>
   spi_intr_flag (exec [Main, Main, Main, Irq, Main, Main, Irq, Main, Irq] armed) \<noteq> 0 \<and>
   \<not> evt_intr_en (exec [Main, Main, Main, Irq, Main, Main, Irq, Main, Irq] armed) \<and>
   \<not> rxwm_intr_en (exec [Main, Main, Main, Irq, Main, Main, Irq, Main, Irq] armed)"
proof -
  have a: "pc (exec [Main, Main, Main, Main] armed) = Wfi"
    by (simp add: armed_def main_step_def)
  have b: "pc (exec [Main, Main, Main] armed) = IfFlag"
    by (simp add: armed_def main_step_def)
  have c: "pc (exec [Main, Main, Main, Irq, Main, Main, Irq, Main, Irq] armed) = While"
    "handler_runs (exec [Main, Main, Main, Irq, Main, Main, Irq, Main, Irq] armed) = 1"
    by (simp_all add: armed_def main_step_def irq_step_def fic_irq_spi_def)
  show ?thesis
    using wait_loop_suspends_only_unsignalled [of "[Main, Main, Main, Main]"]
      wait_loop_suspends_only_unsignalled [of "[Main, Main, Main]"]
      wait_loop_suspends_only_unsignalled [of "[Main, Main, Main, Irq, Main, Main, Irq, Main, Irq]"]
      a b c
    by metis
qed

subsection \<open>Verification engine\<close>

lemma check_words_ceil: "check_words L = (L + 3) div 4"
  unfolding check_words_def by presburger

lemma word_bytes_zero: "word_bytes 0 = replicate 4 0"
  by (simp add: word_bytes_def numeral_eq_Suc)

lemma last_bytes_spec:
  "last_bytes w n = bytes_word (take n (word_bytes w) @ replicate (4 - n) 0)"
  by (simp add: last_bytes_def memcpy_def word_bytes_zero)

lemma verify_step_reference:
  "j < check_words L \<Longrightarrow>
   (if j < L div 4 then expected ! j else last_bytes (expected ! j) (L mod 4))
     = spec_reference_word L expected j"
  by (simp add: spec_reference_word_def last_bytes_spec)

lemma verify_loop_filter:
  "verify_loop L actual expected j errs out =
     (errs + of_nat (length (filter (\<lambda>j. actual ! j \<noteq> spec_reference_word L expected j) [j..<check_words L])),
      out @ map (mismatch_line L actual expected)
              (filter (\<lambda>j. actual ! j \<noteq> spec_reference_word L expected j) [j..<check_words L]))"
proof (induction L actual expected j errs out rule: verify_loop.induct)
  case (1 i a e j errs out)
  show ?case
  proof (cases "j < check_words i")
    case False
    then show ?thesis by (simp add: verify_loop.simps[of i a e j])
  next
    case True
    then have upt: "[j..<check_words i] = j # [j + 1..<check_words i]"
      by (simp add: upt_conv_Cons)
    show ?thesis
    proof (cases "j < i div 4")
      case full: True
      then have r: "spec_reference_word i e j = e ! j"
        by (simp add: spec_reference_word_def)
      show ?thesis
      proof (cases "a ! j \<noteq> e ! j")
        case True
        with \<open>j < check_words i\<close> full "1.IH"(1)
        show ?thesis
          by (simp add: verify_loop.simps[of i a e j] upt r mismatch_line_def)
      next
        case False
        with \<open>j < check_words i\<close> full "1.IH"(2)
        show ?thesis
          by (simp add: verify_loop.simps[of i a e j] upt r)
      qed
    next
      case part: False
      then have r: "spec_reference_word i e j = last_bytes (e ! j) (i mod 4)"
        by (simp add: spec_reference_word_def last_bytes_spec)
      show ?thesis
      proof (cases "a ! j \<noteq> last_bytes (e ! j) (i mod 4)")
        case True
        with \<open>j < check_words i\<close> part "1.IH"(3)[OF _ _ refl]
        show ?thesis
          by (simp add: verify_loop.simps[of i a e j] upt r mismatch_line_def Let_def)
      next
        case False
        with \<open>j < check_words i\<close> part "1.IH"(4)[OF _ _ refl]
        show ?thesis
          by (simp add: verify_loop.simps[of i a e j] upt r Let_def)
      qed
    qed
  qed
qed



lemma verify_refines:
  "verify L actual expected =
     (of_nat (length (spec_mismatches L actual expected)),
      map (mismatch_line L actual expected) (spec_mismatches L actual expected))"
  unfolding verify_def verify_loop_filter spec_mismatches_def check_words_ceil
  by simp

lemma spec_mismatches_bound: "length (spec_mismatches L actual expected) \<le> (L + 3) div 4"
proof -
  have "length (spec_mismatches L actual expected) \<le> length [0..<(L + 3) div 4]"
    unfolding spec_mismatches_def by (rule length_filter_le)
  then show ?thesis by simp
qed


text \<open>
  C3. For every length \<open>L\<close> in \<open>[1, 1024]\<close> the verification visits exactly the
  \<open>ceil(L/4)\<close> word indices \<open>0, ..., (L + 3) div 4 - 1\<close>. Index \<open>j < L div 4\<close> compares
  the full actual and expected words; when \<open>L mod 4 \<noteq> 0\<close> the final index compares the
  actual word with the reference made of the \<open>L mod 4\<close> valid expected bytes copied into
  a zero word. The error count is the number of indices whose comparison differs (one
  line is printed for each, in index order), and it does not wrap.
\<close>

theorem verify_counts_mismatching_words:
  assumes "1 \<le> L" "L \<le> 1024"
  shows "check_words L = (L + 3) div 4 \<and>
     verify L actual expected =
     (of_nat (length (spec_mismatches L actual expected)),
      map (\<lambda>j. PrintMismatch L j (actual ! j) (spec_reference_word L expected j)) (spec_mismatches L actual expected))
    \<and> unat (fst (verify L actual expected)) = length (spec_mismatches L actual expected)"
proof -
  let ?n = "length (spec_mismatches L actual expected)"
  have "?n \<le> 256"
    using spec_mismatches_bound[of L actual expected] assms by linarith
  then have "?n < 2 ^ 32" by simp
  then have u: "unat (of_nat ?n :: uint32_t) = ?n"
    by (simp add: unat_of_nat take_bit_nat_eq_self)
  have m: "mismatch_line L actual expected = (\<lambda>j. PrintMismatch L j (actual ! j) (spec_reference_word L expected j))"
    by (rule ext) (simp add: mismatch_line_def)
  show ?thesis
    unfolding verify_refines m using u by (simp add: check_words_ceil)
qed

theorem verify_counts_mismatching_words_witness:
  "(1 :: nat) \<le> 5 \<and> (5 :: nat) \<le> 1024 \<and> check_words 5 = 2 \<and>
   spec_mismatches 5 [1, 0xAABBCC02] [1, 0xDDEEFF02] = [1] \<and>
   verify 5 [1, 0xAABBCC02] [1, 0xDDEEFF02] = (1, [PrintMismatch 5 1 0xAABBCC02 2]) \<and>
   unat (fst (verify 5 [1, 0xAABBCC02] [1, 0xDDEEFF02])) = 1"
proof -
  have h1: "(1 :: nat) \<le> 5" and h2: "(5 :: nat) \<le> 1024" by simp_all
  have m: "spec_mismatches 5 [1, 0xAABBCC02] [1, 0xDDEEFF02] = [1]"
    by code_simp
  have r: "spec_reference_word 5 [1, 0xDDEEFF02] (Suc 0) = 2"
    by code_simp
  show ?thesis
    using verify_counts_mismatching_words [OF h1 h2, of "[1, 0xAABBCC02]" "[1, 0xDDEEFF02]"]
    by (simp add: m r)
qed

subsection \<open>The partial trailing word\<close>

text \<open>
  C2, evaluated on the code. The check of the final partial word compares the whole
  read-back word with the zero-padded reference (\<^verbatim>\<open>flash_data_check[j] != last_bytes\<close>),
  so the bytes of the read-back word beyond the requested length are examined. With
  \<open>L = 1\<close> and the expected word \<open>0x000000AA\<close>, the read-back words \<open>0x000000AA\<close> and
  \<open>0xBB0000AA\<close> agree on the one valid byte, yet the first counts 0 mismatches and the
  second 1. Even a read-back word equal to the expected word \<open>0x04030201\<close> is counted
  as a mismatch, against the comment
  \<^verbatim>\<open>Check if what we read is correct (i.e. flash_original == flash_data)\<close>.
\<close>

theorem trailing_actual_bytes_change_count:
  "take (1 mod 4) (word_bytes 0xBB0000AA) = take (1 mod 4) (word_bytes 0xAA) \<and>
   fst (verify 1 [0xAA] [0xAA]) = 0 \<and> fst (verify 1 [0xBB0000AA] [0xAA]) = 1 \<and>
   fst (verify 1 [0xBB0000AA] [0xAA]) \<noteq> fst (verify 1 [0xAA] [0xAA]) \<and>
   verify 1 [0x04030201] [0x04030201] = (1, [PrintMismatch 1 0 0x04030201 0x01])"
  by (simp add: verify_def check_words_def last_bytes_def memcpy_def word_bytes_def)

subsection \<open>Timed transfers and the profiling passes\<close>

lemma flash_calls_append: "flash_calls (xs @ ys) = flash_calls xs @ flash_calls ys"
  by (induction xs rule: flash_calls.induct) simp_all

lemma checked_iterations_append:
  "checked_iterations (xs @ ys) = checked_iterations xs @ checked_iterations ys"
  by (induction xs rule: checked_iterations.induct) simp_all

lemma timer_reads_append: "timer_reads (xs @ ys) = timer_reads xs @ timer_reads ys"
  by (induction xs rule: timer_reads.induct) simp_all

lemma flash_calls_mismatch_lines: "flash_calls (map (mismatch_line L a e) ms) = []"
  by (induction ms) (simp_all add: mismatch_line_def)

lemma checked_iterations_mismatch_lines: "checked_iterations (map (mismatch_line L a e) ms) = []"
  by (induction ms) (simp_all add: mismatch_line_def)

lemma counter_value_set_counter: "counter_value (set_counter v t) = v"
  unfolding counter_value_def set_counter_def
  by (rule bit_word_eqI) (auto simp add: bit_simps)

lemma counter_value_enabled_update: "counter_value (t\<lparr>enabled := b\<rparr>) = counter_value t"
  by (simp add: counter_value_def)

lemma counter_value_zero: "lower t = 0 \<Longrightarrow> upper t = 0 \<Longrightarrow> counter_value t = 0"
  by (simp add: counter_value_def)

lemma counter_after_timed_op:
  "counter_value
     ((elapse n (t\<lparr>lower := 0, upper := 0, enabled := True\<rparr>))\<lparr>enabled := False\<rparr>) = n"
  by (simp add: elapse_def counter_value_enabled_update counter_value_set_counter counter_value_zero)

lemma timed_write_outcome:
  "outcome (timed_write drv sp i s) =
     (if write_status drv sp i = FLASH_OK then
        (None, trace s @ [TimerWriteLower 0, TimerWriteUpper 0, TimerSetEnabled True,
                          FlashCall WriteOp sp i, TimerSetEnabled False,
                          TimerRead (op_ticks drv WriteOp sp i),
                          PrintTicks WriteOp (op_ticks drv WriteOp sp i)])
      else
        (Some EXIT_FAILURE,
         trace s @ [TimerWriteLower 0, TimerWriteUpper 0, TimerSetEnabled True,
                    FlashCall WriteOp sp i, TimerSetEnabled False]))"
  by (simp add: timed_write_def outcome_def reset_timer_def rv_timer_counter_set_enabled_def
      flash_write_def rv_timer_counter_read_def emit_def pass_time_def Let_def counter_after_timed_op)

lemma timed_read_outcome:
  "outcome (timed_read drv sp i s) =
     (if read_status drv sp i = FLASH_OK then
        (None, trace s @ [TimerWriteLower 0, TimerWriteUpper 0, TimerSetEnabled True,
                          FlashCall ReadOp sp i, TimerSetEnabled False,
                          TimerRead (op_ticks drv ReadOp sp i),
                          PrintTicks ReadOp (op_ticks drv ReadOp sp i)])
      else
        (Some EXIT_FAILURE,
         trace s @ [TimerWriteLower 0, TimerWriteUpper 0, TimerSetEnabled True,
                    FlashCall ReadOp sp i, TimerSetEnabled False]))"
  by (simp add: timed_read_def outcome_def reset_timer_def rv_timer_counter_set_enabled_def
      flash_read_def rv_timer_counter_read_def emit_def pass_time_def Let_def counter_after_timed_op)

lemma reset_then_idle_reads_zero:
  "\<not> enabled (timer_0_1 s) \<Longrightarrow>
   fst (rv_timer_counter_read (pass_time n (reset_timer s))) = 0"
  by (simp add: rv_timer_counter_read_def reset_timer_def emit_def pass_time_def elapse_def Let_def counter_value_zero)



lemma timed_write_ok:
  assumes "write_status drv sp i = FLASH_OK"
  obtains s' where "timed_write drv sp i s = Inr s'"
    and "flash_calls (trace s') = flash_calls (trace s) @ [(WriteOp, sp, i)]"
    and "checked_iterations (trace s') = checked_iterations (trace s)"
    and "flash_data_32 s' = flash_data_32 s" and "errors s' = errors s" and "flag s' = flag s"
proof -
  from assms have "\<exists>s'. timed_write drv sp i s = Inr s' \<and>
      flash_calls (trace s') = flash_calls (trace s) @ [(WriteOp, sp, i)] \<and>
      checked_iterations (trace s') = checked_iterations (trace s) \<and>
      flash_data_32 s' = flash_data_32 s \<and> errors s' = errors s \<and> flag s' = flag s"
    by (simp add: timed_write_def reset_timer_def rv_timer_counter_set_enabled_def
        flash_write_def rv_timer_counter_read_def emit_def pass_time_def Let_def
        flash_calls_append checked_iterations_append)
  then show ?thesis using that by blast
qed

lemma timed_write_fail:
  assumes "write_status drv sp i \<noteq> FLASH_OK"
  obtains s' where "timed_write drv sp i s = Inl (EXIT_FAILURE, s')"
    and "flash_calls (trace s') = flash_calls (trace s) @ [(WriteOp, sp, i)]"
    and "checked_iterations (trace s') = checked_iterations (trace s)"
proof -
  from assms have "\<exists>s'. timed_write drv sp i s = Inl (EXIT_FAILURE, s') \<and>
      flash_calls (trace s') = flash_calls (trace s) @ [(WriteOp, sp, i)] \<and>
      checked_iterations (trace s') = checked_iterations (trace s)"
    by (simp add: timed_write_def reset_timer_def rv_timer_counter_set_enabled_def
        flash_write_def emit_def pass_time_def Let_def flash_calls_append checked_iterations_append)
  then show ?thesis using that by blast
qed

lemma timed_read_ok:
  assumes "read_status drv sp i = FLASH_OK"
  obtains s' where "timed_read drv sp i s = Inr s'"
    and "flash_calls (trace s') = flash_calls (trace s) @ [(ReadOp, sp, i)]"
    and "checked_iterations (trace s') = checked_iterations (trace s)"
    and "flash_data_32 s' = read_data drv sp i (flash_data_32 s)"
    and "errors s' = errors s" and "flag s' = flag s"
proof -
  from assms have "\<exists>s'. timed_read drv sp i s = Inr s' \<and>
      flash_calls (trace s') = flash_calls (trace s) @ [(ReadOp, sp, i)] \<and>
      checked_iterations (trace s') = checked_iterations (trace s) \<and>
      flash_data_32 s' = read_data drv sp i (flash_data_32 s) \<and>
      errors s' = errors s \<and> flag s' = flag s"
    by (simp add: timed_read_def reset_timer_def rv_timer_counter_set_enabled_def
        flash_read_def rv_timer_counter_read_def emit_def pass_time_def Let_def
        flash_calls_append checked_iterations_append)
  then show ?thesis using that by blast
qed

lemma timed_read_fail:
  assumes "read_status drv sp i \<noteq> FLASH_OK"
  obtains s' where "timed_read drv sp i s = Inl (EXIT_FAILURE, s')"
    and "flash_calls (trace s') = flash_calls (trace s) @ [(ReadOp, sp, i)]"
    and "checked_iterations (trace s') = checked_iterations (trace s)"
proof -
  from assms have "\<exists>s'. timed_read drv sp i s = Inl (EXIT_FAILURE, s') \<and>
      flash_calls (trace s') = flash_calls (trace s) @ [(ReadOp, sp, i)] \<and>
      checked_iterations (trace s') = checked_iterations (trace s)"
    by (simp add: timed_read_def reset_timer_def rv_timer_counter_set_enabled_def
        flash_read_def emit_def pass_time_def Let_def flash_calls_append checked_iterations_append)
  then show ?thesis using that by blast
qed

lemma check_iteration_facts:
  "flash_calls (trace (check_iteration tb sp i s)) = flash_calls (trace s)"
  "checked_iterations (trace (check_iteration tb sp i s)) = checked_iterations (trace s) @ [(sp, i)]"
  "errors (check_iteration tb sp i s) = errors s"
  "flash_data_32 (check_iteration tb sp i s) = flash_data_32 s"
  "flag (check_iteration tb sp i s) =
     (if fst (verify i (flash_data_32 s) tb) > 0 then 1 else flag s)"
  by (simp_all add: check_iteration_def verify_refines emit_def pass_time_def Let_def
      flash_calls_append checked_iterations_append
      flash_calls_mismatch_lines checked_iterations_mismatch_lines)

lemma iteration_ok:
  assumes "write_status drv sp i = FLASH_OK" and "read_status drv sp i = FLASH_OK"
  obtains s' where "iteration drv tb sp i s = Inr s'"
    and "flash_calls (trace s') = flash_calls (trace s) @ [(WriteOp, sp, i), (ReadOp, sp, i)]"
    and "checked_iterations (trace s') = checked_iterations (trace s) @ [(sp, i)]"
    and "errors s' = errors s"
    and "flash_data_32 s' = read_data drv sp i (flash_data_32 s)"
    and "flag s' = (if fst (verify i (read_data drv sp i (flash_data_32 s)) tb) > 0 then 1 else flag s)"
proof -
  obtain s1 where 1: "timed_write drv sp i s = Inr s1"
    "flash_calls (trace s1) = flash_calls (trace s) @ [(WriteOp, sp, i)]"
    "checked_iterations (trace s1) = checked_iterations (trace s)"
    "flash_data_32 s1 = flash_data_32 s" "errors s1 = errors s" "flag s1 = flag s"
    by (rule timed_write_ok[OF assms(1)])
  obtain s2 where 2: "timed_read drv sp i s1 = Inr s2"
    "flash_calls (trace s2) = flash_calls (trace s1) @ [(ReadOp, sp, i)]"
    "checked_iterations (trace s2) = checked_iterations (trace s1)"
    "flash_data_32 s2 = read_data drv sp i (flash_data_32 s1)"
    "errors s2 = errors s1" "flag s2 = flag s1"
    by (rule timed_read_ok[OF assms(2)])
  show ?thesis
    by (rule that[of "check_iteration tb sp i s2"])
       (simp_all add: iteration_def 1 2 check_iteration_facts)
qed

lemma iteration_write_fail:
  assumes "write_status drv sp i \<noteq> FLASH_OK"
  obtains s' where "iteration drv tb sp i s = Inl (EXIT_FAILURE, s')"
    and "flash_calls (trace s') = flash_calls (trace s) @ [(WriteOp, sp, i)]"
    and "checked_iterations (trace s') = checked_iterations (trace s)"
proof -
  obtain s1 where 1: "timed_write drv sp i s = Inl (EXIT_FAILURE, s1)"
    "flash_calls (trace s1) = flash_calls (trace s) @ [(WriteOp, sp, i)]"
    "checked_iterations (trace s1) = checked_iterations (trace s)"
    by (rule timed_write_fail[OF assms])
  show ?thesis
    by (rule that[of s1]) (simp_all add: iteration_def 1)
qed

lemma iteration_read_fail:
  assumes "write_status drv sp i = FLASH_OK" and "read_status drv sp i \<noteq> FLASH_OK"
  obtains s' where "iteration drv tb sp i s = Inl (EXIT_FAILURE, s')"
    and "flash_calls (trace s') = flash_calls (trace s) @ [(WriteOp, sp, i), (ReadOp, sp, i)]"
    and "checked_iterations (trace s') = checked_iterations (trace s)"
proof -
  obtain s1 where 1: "timed_write drv sp i s = Inr s1"
    "flash_calls (trace s1) = flash_calls (trace s) @ [(WriteOp, sp, i)]"
    "checked_iterations (trace s1) = checked_iterations (trace s)"
    "flash_data_32 s1 = flash_data_32 s" "errors s1 = errors s" "flag s1 = flag s"
    by (rule timed_write_ok[OF assms(1)])
  obtain s2 where 2: "timed_read drv sp i s1 = Inl (EXIT_FAILURE, s2)"
    "flash_calls (trace s2) = flash_calls (trace s1) @ [(ReadOp, sp, i)]"
    "checked_iterations (trace s2) = checked_iterations (trace s1)"
    by (rule timed_read_fail[OF assms(2)])
  show ?thesis
    by (rule that[of s2]) (simp_all add: iteration_def 1 2)
qed


lemma calls_of_empty: "k \<le> i \<Longrightarrow> calls_of sp i k = []"
  by (simp add: calls_of_def)

lemma calls_of_step:
  "i < k \<Longrightarrow> calls_of sp i k = [(WriteOp, sp, i), (ReadOp, sp, i)] @ calls_of sp (i + 1) k"
  by (simp add: calls_of_def upt_conv_Cons)

lemma iterations_of_empty: "k \<le> i \<Longrightarrow> iterations_of sp i k = []"
  by (simp add: iterations_of_def)

lemma iterations_of_step:
  "i < k \<Longrightarrow> iterations_of sp i k = (sp, i) # iterations_of sp (i + 1) k"
  by (simp add: iterations_of_def upt_conv_Cons)

lemma profile_loop_ok:
  assumes "\<forall>j. i \<le> j \<and> j \<le> MAX_TEST_BUF_LEN \<longrightarrow>
             write_status drv sp j = FLASH_OK \<and> read_status drv sp j = FLASH_OK"
  shows "\<exists>s'. profile_loop drv tb sp i s = Inr s' \<and>
           flash_calls (trace s') = flash_calls (trace s) @ calls_of sp i (Suc MAX_TEST_BUF_LEN) \<and>
           checked_iterations (trace s') =
             checked_iterations (trace s) @ iterations_of sp i (Suc MAX_TEST_BUF_LEN) \<and>
           errors s' = errors s \<and> (flag s = 1 \<longrightarrow> flag s' = 1)"
  using assms
proof (induction drv tb sp i s rule: profile_loop.induct)
  case (1 drv tb sp i s)
  show ?case
  proof (cases "i \<le> MAX_TEST_BUF_LEN")
    case False
    then show ?thesis
      by (simp add: profile_loop.simps[of drv tb sp i s] calls_of_empty iterations_of_empty)
  next
    case True
    with "1.prems" have ok: "write_status drv sp i = FLASH_OK" "read_status drv sp i = FLASH_OK"
      by simp_all
    obtain s1 where s1: "iteration drv tb sp i s = Inr s1"
      "flash_calls (trace s1) = flash_calls (trace s) @ [(WriteOp, sp, i), (ReadOp, sp, i)]"
      "checked_iterations (trace s1) = checked_iterations (trace s) @ [(sp, i)]"
      "errors s1 = errors s"
      "flash_data_32 s1 = read_data drv sp i (flash_data_32 s)"
      "flag s1 = (if fst (verify i (read_data drv sp i (flash_data_32 s)) tb) > 0 then 1 else flag s)"
      by (rule iteration_ok[OF ok])
    from "1.prems" have "\<forall>j. i + 1 \<le> j \<and> j \<le> MAX_TEST_BUF_LEN \<longrightarrow>
             write_status drv sp j = FLASH_OK \<and> read_status drv sp j = FLASH_OK"
      by simp
    from "1.IH"[OF True s1(1) this]
    obtain s' where s': "profile_loop drv tb sp (i + 1) s1 = Inr s'"
      "flash_calls (trace s') = flash_calls (trace s1) @ calls_of sp (i + 1) (Suc MAX_TEST_BUF_LEN)"
      "checked_iterations (trace s') =
         checked_iterations (trace s1) @ iterations_of sp (i + 1) (Suc MAX_TEST_BUF_LEN)"
      "errors s' = errors s1" "flag s1 = 1 \<longrightarrow> flag s' = 1"
      by blast
    from True have lt: "i < Suc MAX_TEST_BUF_LEN" by simp
    have "profile_loop drv tb sp i s = Inr s'"
      using True s1(1) s'(1) by (simp add: profile_loop.simps[of drv tb sp i s])
    moreover have "flag s = 1 \<longrightarrow> flag s' = 1"
      using s1(6) s'(5) by simp
    ultimately show ?thesis
      using s1 s' by (simp add: calls_of_step[OF lt] iterations_of_step[OF lt])
  qed
qed

lemma profile_loop_fail:
  assumes "i \<le> k" and "k \<le> MAX_TEST_BUF_LEN"
    and "\<forall>j. i \<le> j \<and> j < k \<longrightarrow>
             write_status drv sp j = FLASH_OK \<and> read_status drv sp j = FLASH_OK"
    and "write_status drv sp k \<noteq> FLASH_OK \<or> read_status drv sp k \<noteq> FLASH_OK"
  shows "\<exists>s'. profile_loop drv tb sp i s = Inl (EXIT_FAILURE, s') \<and>
           flash_calls (trace s') =
             flash_calls (trace s) @ calls_of sp i k @ failing_calls drv sp k \<and>
           checked_iterations (trace s') = checked_iterations (trace s) @ iterations_of sp i k"
  using assms
proof (induction drv tb sp i s rule: profile_loop.induct)
  case (1 drv tb sp i s)
  from "1.prems"(1,2) have le: "i \<le> MAX_TEST_BUF_LEN" by simp
  show ?case
  proof (cases "i = k")
    case True
    show ?thesis
    proof (cases "write_status drv sp k \<noteq> FLASH_OK")
      case wf: True
      obtain s1 where s1: "iteration drv tb sp k s = Inl (EXIT_FAILURE, s1)"
        "flash_calls (trace s1) = flash_calls (trace s) @ [(WriteOp, sp, k)]"
        "checked_iterations (trace s1) = checked_iterations (trace s)"
        by (rule iteration_write_fail[OF wf])
      then show ?thesis
        using True le wf
        by (simp add: profile_loop.simps[of drv tb sp k s] calls_of_empty iterations_of_empty
            failing_calls_def)
    next
      case False
      then have wok: "write_status drv sp k = FLASH_OK" by simp
      with "1.prems"(4) have rf: "read_status drv sp k \<noteq> FLASH_OK" by simp
      obtain s1 where s1: "iteration drv tb sp k s = Inl (EXIT_FAILURE, s1)"
        "flash_calls (trace s1) = flash_calls (trace s) @ [(WriteOp, sp, k), (ReadOp, sp, k)]"
        "checked_iterations (trace s1) = checked_iterations (trace s)"
        by (rule iteration_read_fail[OF wok rf])
      then show ?thesis
        using True le wok
        by (simp add: profile_loop.simps[of drv tb sp k s] calls_of_empty iterations_of_empty
            failing_calls_def)
    qed
  next
    case False
    with "1.prems"(1) have lt: "i < k" by simp
    with "1.prems"(3) have ok: "write_status drv sp i = FLASH_OK" "read_status drv sp i = FLASH_OK"
      by simp_all
    obtain s1 where s1: "iteration drv tb sp i s = Inr s1"
      "flash_calls (trace s1) = flash_calls (trace s) @ [(WriteOp, sp, i), (ReadOp, sp, i)]"
      "checked_iterations (trace s1) = checked_iterations (trace s) @ [(sp, i)]"
      "errors s1 = errors s"
      "flash_data_32 s1 = read_data drv sp i (flash_data_32 s)"
      "flag s1 = (if fst (verify i (read_data drv sp i (flash_data_32 s)) tb) > 0 then 1 else flag s)"
      by (rule iteration_ok[OF ok])
    from lt have a: "i + 1 \<le> k" by simp
    from "1.prems"(3) have b: "\<forall>j. i + 1 \<le> j \<and> j < k \<longrightarrow>
             write_status drv sp j = FLASH_OK \<and> read_status drv sp j = FLASH_OK"
      by simp
    from "1.IH"[OF le s1(1) a "1.prems"(2) b "1.prems"(4)]
    obtain s' where s': "profile_loop drv tb sp (i + 1) s1 = Inl (EXIT_FAILURE, s')"
      "flash_calls (trace s') =
         flash_calls (trace s1) @ calls_of sp (i + 1) k @ failing_calls drv sp k"
      "checked_iterations (trace s') = checked_iterations (trace s1) @ iterations_of sp (i + 1) k"
      by blast
    have "profile_loop drv tb sp i s = Inl (EXIT_FAILURE, s')"
      using le s1(1) s'(1) by (simp add: profile_loop.simps[of drv tb sp i s])
    then show ?thesis
      using s1 s' by (simp add: calls_of_step[OF lt] iterations_of_step[OF lt])
  qed
qed


lemma main_all_ok:
  assumes "init_status drv = FLASH_OK"
    and "\<forall>sp j. 1 \<le> j \<and> j \<le> MAX_TEST_BUF_LEN \<longrightarrow>
            write_status drv sp j = FLASH_OK \<and> read_status drv sp j = FLASH_OK"
  obtains s1 s2 where "profile_loop drv tb Standard 1 (initial_state drv) = Inr s1"
    and "profile_loop drv tb Quad 1 s1 = Inr s2"
    and "main_profiling drv tb = (EXIT_SUCCESS, emit [PrintVerdict True] s2)"
    and "flash_calls (trace s2) = calls_of Standard 1 1025 @ calls_of Quad 1 1025"
    and "checked_iterations (trace s2) = iterations_of Standard 1 1025 @ iterations_of Quad 1 1025"
    and "flag s1 = 1 \<longrightarrow> flag s2 = 1"
proof -
  from assms(2) have std: "\<forall>j. 1 \<le> j \<and> j \<le> MAX_TEST_BUF_LEN \<longrightarrow>
      write_status drv Standard j = FLASH_OK \<and> read_status drv Standard j = FLASH_OK"
    by blast
  from assms(2) have quad: "\<forall>j. 1 \<le> j \<and> j \<le> MAX_TEST_BUF_LEN \<longrightarrow>
      write_status drv Quad j = FLASH_OK \<and> read_status drv Quad j = FLASH_OK"
    by blast
  from profile_loop_ok[OF std, of tb "initial_state drv"]
  obtain s1 where s1: "profile_loop drv tb Standard 1 (initial_state drv) = Inr s1"
    "flash_calls (trace s1) =
       flash_calls (trace (initial_state drv)) @ calls_of Standard 1 (Suc MAX_TEST_BUF_LEN)"
    "checked_iterations (trace s1) =
       checked_iterations (trace (initial_state drv)) @ iterations_of Standard 1 (Suc MAX_TEST_BUF_LEN)"
    "errors s1 = errors (initial_state drv)"
    by blast
  from profile_loop_ok[OF quad, of tb s1]
  obtain s2 where s2: "profile_loop drv tb Quad 1 s1 = Inr s2"
    "flash_calls (trace s2) = flash_calls (trace s1) @ calls_of Quad 1 (Suc MAX_TEST_BUF_LEN)"
    "checked_iterations (trace s2) =
       checked_iterations (trace s1) @ iterations_of Quad 1 (Suc MAX_TEST_BUF_LEN)"
    "errors s2 = errors s1" "flag s1 = 1 \<longrightarrow> flag s2 = 1"
    by blast
  have n: "Suc MAX_TEST_BUF_LEN = 1025" by (simp add: MAX_TEST_BUF_LEN_def)
  have e: "errors s2 = 0" using s1(4) s2(4) by (simp add: initial_state_def)
  show ?thesis
  proof (rule that[of s1 s2])
    show "main_profiling drv tb = (EXIT_SUCCESS, emit [PrintVerdict True] s2)"
      using assms(1) s1(1) s2(1) e by (simp add: main_profiling_def Let_def)
    show "flash_calls (trace s2) = calls_of Standard 1 1025 @ calls_of Quad 1 1025"
      using s1(2) s2(2) by (simp add: n initial_state_def)
    show "checked_iterations (trace s2) = iterations_of Standard 1 1025 @ iterations_of Quad 1 1025"
      using s1(3) s2(3) by (simp add: n initial_state_def)
  qed (fact s1(1) s2(1) s2(5))+
qed

text \<open>
  C6. A verification mismatch never aborts the run: whenever all driver calls return
  \<open>FLASH_OK\<close>, whatever the reference buffer and whatever the reads deliver (so
  whether or not mismatches are detected), \<open>main\<close> performs the write and the read of
  every length 1..1024 in the standard-speed loop and then in the quad-speed loop, and
  runs the check of every one of these iterations.
\<close>

theorem mismatches_do_not_abort:
  assumes "init_status drv = FLASH_OK"
    and "\<forall>sp j. 1 \<le> j \<and> j \<le> MAX_TEST_BUF_LEN \<longrightarrow>
            write_status drv sp j = FLASH_OK \<and> read_status drv sp j = FLASH_OK"
  shows "flash_calls (trace (snd (main_profiling drv test_buffer))) =
           calls_of Standard 1 1025 @ calls_of Quad 1 1025 \<and>
         checked_iterations (trace (snd (main_profiling drv test_buffer))) =
           iterations_of Standard 1 1025 @ iterations_of Quad 1 1025"
proof -
  obtain s1 s2 where
    "main_profiling drv test_buffer = (EXIT_SUCCESS, emit [PrintVerdict True] s2)"
    "flash_calls (trace s2) = calls_of Standard 1 1025 @ calls_of Quad 1 1025"
    "checked_iterations (trace s2) = iterations_of Standard 1 1025 @ iterations_of Quad 1 1025"
    by (rule main_all_ok[OF assms, of test_buffer])
  then show ?thesis
    by (simp add: emit_def flash_calls_append checked_iterations_append)
qed


text \<open>
  C5. If the first driver call that does not return \<open>FLASH_OK\<close> is the write or the
  read of length \<open>k\<close> in the loop of speed \<open>sp\<close>, then \<open>main\<close> returns
  \<open>EXIT_FAILURE\<close>, the failing call is the last driver call of the run (it is not
  retried and no later iteration starts), and the check of iteration \<open>k\<close> does not run.
\<close>

theorem driver_error_aborts_run:
  assumes "init_status drv = FLASH_OK"
    and "1 \<le> k" and "k \<le> MAX_TEST_BUF_LEN"
    and "sp = Quad \<longrightarrow> (\<forall>j. 1 \<le> j \<and> j \<le> MAX_TEST_BUF_LEN \<longrightarrow>
            write_status drv Standard j = FLASH_OK \<and> read_status drv Standard j = FLASH_OK)"
    and "\<forall>j. 1 \<le> j \<and> j < k \<longrightarrow>
            write_status drv sp j = FLASH_OK \<and> read_status drv sp j = FLASH_OK"
    and "write_status drv sp k \<noteq> FLASH_OK \<or> read_status drv sp k \<noteq> FLASH_OK"
  shows "fst (main_profiling drv test_buffer) = EXIT_FAILURE \<and>
         flash_calls (trace (snd (main_profiling drv test_buffer))) =
           (if sp = Quad then calls_of Standard 1 1025 else []) @
           calls_of sp 1 k @ failing_calls drv sp k \<and>
         checked_iterations (trace (snd (main_profiling drv test_buffer))) =
           (if sp = Quad then iterations_of Standard 1 1025 else []) @ iterations_of sp 1 k"
proof (cases sp)
  case Standard
  from profile_loop_fail[OF assms(2,3,5,6), of test_buffer "initial_state drv"]
  obtain s' where s': "profile_loop drv test_buffer sp 1 (initial_state drv) = Inl (EXIT_FAILURE, s')"
    "flash_calls (trace s') =
       flash_calls (trace (initial_state drv)) @ calls_of sp 1 k @ failing_calls drv sp k"
    "checked_iterations (trace s') =
       checked_iterations (trace (initial_state drv)) @ iterations_of sp 1 k"
    by blast
  have "main_profiling drv test_buffer = (EXIT_FAILURE, s')"
    using assms(1) s'(1) Standard by (simp add: main_profiling_def Let_def)
  then show ?thesis
    using s'(2,3) Standard by (simp add: initial_state_def)
next
  case Quad
  with assms(4) have std: "\<forall>j. 1 \<le> j \<and> j \<le> MAX_TEST_BUF_LEN \<longrightarrow>
      write_status drv Standard j = FLASH_OK \<and> read_status drv Standard j = FLASH_OK"
    by simp
  from profile_loop_ok[OF std, of test_buffer "initial_state drv"]
  obtain s1 where s1: "profile_loop drv test_buffer Standard 1 (initial_state drv) = Inr s1"
    "flash_calls (trace s1) =
       flash_calls (trace (initial_state drv)) @ calls_of Standard 1 (Suc MAX_TEST_BUF_LEN)"
    "checked_iterations (trace s1) =
       checked_iterations (trace (initial_state drv)) @ iterations_of Standard 1 (Suc MAX_TEST_BUF_LEN)"
    by blast
  from profile_loop_fail[OF assms(2,3,5,6), of test_buffer s1]
  obtain s' where s': "profile_loop drv test_buffer sp 1 s1 = Inl (EXIT_FAILURE, s')"
    "flash_calls (trace s') = flash_calls (trace s1) @ calls_of sp 1 k @ failing_calls drv sp k"
    "checked_iterations (trace s') = checked_iterations (trace s1) @ iterations_of sp 1 k"
    by blast
  have n: "Suc MAX_TEST_BUF_LEN = 1025" by (simp add: MAX_TEST_BUF_LEN_def)
  have "main_profiling drv test_buffer = (EXIT_FAILURE, s')"
    using assms(1) s1(1) s'(1) Quad by (simp add: main_profiling_def Let_def)
  then show ?thesis
    using s1(2,3) s'(2,3) Quad by (simp add: initial_state_def n)
qed

lemma failing_driver_before:
  "\<forall>j. 1 \<le> j \<and> j < 2 \<longrightarrow>
     write_status failing_driver Standard j = FLASH_OK \<and>
     read_status failing_driver Standard j = FLASH_OK"
  by (simp add: failing_driver_def)

theorem driver_error_aborts_run_witness:
  "init_status failing_driver = FLASH_OK \<and> write_status failing_driver Standard 2 \<noteq> FLASH_OK \<and>
   fst (main_profiling failing_driver (replicate 256 0x01010101)) = EXIT_FAILURE \<and>
   flash_calls (trace (snd (main_profiling failing_driver (replicate 256 0x01010101)))) =
     [(WriteOp, Standard, 1), (ReadOp, Standard, 1), (WriteOp, Standard, 2)] \<and>
   checked_iterations (trace (snd (main_profiling failing_driver (replicate 256 0x01010101)))) =
     [(Standard, 1)] \<and>
   init_status quad_failing_driver = FLASH_OK \<and>
   read_status quad_failing_driver Quad 1 \<noteq> FLASH_OK \<and>
   fst (main_profiling quad_failing_driver (replicate 256 0)) = EXIT_FAILURE \<and>
   flash_calls (trace (snd (main_profiling quad_failing_driver (replicate 256 0)))) =
     calls_of Standard 1 1025 @ [(WriteOp, Quad, 1), (ReadOp, Quad, 1)] \<and>
   checked_iterations (trace (snd (main_profiling quad_failing_driver (replicate 256 0)))) =
     iterations_of Standard 1 1025"
proof -
  have h1: "init_status failing_driver = FLASH_OK" by (simp add: failing_driver_def)
  have h2: "(1 :: nat) \<le> 2" by simp
  have h3: "2 \<le> MAX_TEST_BUF_LEN" by (simp add: MAX_TEST_BUF_LEN_def)
  have h4: "Standard = Quad \<longrightarrow> (\<forall>j. 1 \<le> j \<and> j \<le> MAX_TEST_BUF_LEN \<longrightarrow>
      write_status failing_driver Standard j = FLASH_OK \<and>
      read_status failing_driver Standard j = FLASH_OK)" by simp
  have h5: "\<forall>j. 1 \<le> j \<and> j < 2 \<longrightarrow>
     write_status failing_driver Standard j = FLASH_OK \<and>
     read_status failing_driver Standard j = FLASH_OK"
    by (simp add: failing_driver_def)
  have w: "write_status failing_driver Standard 2 \<noteq> FLASH_OK" by (simp add: failing_driver_def)
  then have h6: "write_status failing_driver Standard 2 \<noteq> FLASH_OK \<or>
      read_status failing_driver Standard 2 \<noteq> FLASH_OK" by simp
  have c: "calls_of Standard (Suc 0) 2 = [(WriteOp, Standard, Suc 0), (ReadOp, Standard, Suc 0)]"
    by (simp add: calls_of_def upt_conv_Cons)
  have i: "iterations_of Standard (Suc 0) 2 = [(Standard, Suc 0)]"
    by (simp add: iterations_of_def upt_conv_Cons)
  have std: "fst (main_profiling failing_driver (replicate 256 0x01010101)) = EXIT_FAILURE \<and>
   flash_calls (trace (snd (main_profiling failing_driver (replicate 256 0x01010101)))) =
     [(WriteOp, Standard, 1), (ReadOp, Standard, 1), (WriteOp, Standard, 2)] \<and>
   checked_iterations (trace (snd (main_profiling failing_driver (replicate 256 0x01010101)))) =
     [(Standard, 1)]"
    using driver_error_aborts_run [OF h1 h2 h3 h4 h5 h6, of "replicate 256 0x01010101"]
    by (simp add: c i failing_calls_def w)
  have q1: "init_status quad_failing_driver = FLASH_OK" by (simp add: quad_failing_driver_def)
  have q2: "(1 :: nat) \<le> 1" by simp
  have q3: "1 \<le> MAX_TEST_BUF_LEN" by (simp add: MAX_TEST_BUF_LEN_def)
  have q4: "Quad = Quad \<longrightarrow> (\<forall>j. 1 \<le> j \<and> j \<le> MAX_TEST_BUF_LEN \<longrightarrow>
      write_status quad_failing_driver Standard j = FLASH_OK \<and>
      read_status quad_failing_driver Standard j = FLASH_OK)"
    by (simp add: quad_failing_driver_def)
  have q5: "\<forall>j. 1 \<le> j \<and> j < 1 \<longrightarrow>
     write_status quad_failing_driver Quad j = FLASH_OK \<and>
     read_status quad_failing_driver Quad j = FLASH_OK"
    by simp
  have r: "read_status quad_failing_driver Quad 1 \<noteq> FLASH_OK"
    by (simp add: quad_failing_driver_def)
  then have q6: "write_status quad_failing_driver Quad 1 \<noteq> FLASH_OK \<or>
      read_status quad_failing_driver Quad 1 \<noteq> FLASH_OK" by simp
  have wq: "write_status quad_failing_driver sp j = FLASH_OK" for sp j
    by (simp add: quad_failing_driver_def)
  have quad: "fst (main_profiling quad_failing_driver (replicate 256 0)) = EXIT_FAILURE \<and>
   flash_calls (trace (snd (main_profiling quad_failing_driver (replicate 256 0)))) =
     calls_of Standard 1 1025 @ [(WriteOp, Quad, 1), (ReadOp, Quad, 1)] \<and>
   checked_iterations (trace (snd (main_profiling quad_failing_driver (replicate 256 0)))) =
     iterations_of Standard 1 1025"
    using driver_error_aborts_run [OF q1 q2 q3 q4 q5 q6, of "replicate 256 0"]
    by (simp add: failing_calls_def wq calls_of_empty iterations_of_empty)
  from h1 w std q1 r quad show ?thesis by blast
qed

theorem mismatches_do_not_abort_witness:
  "init_status stuck_driver = FLASH_OK \<and>
   fst (verify 1 (replicate 1024 0) (replicate 256 0x01010101)) = 1 \<and>
   flash_calls (trace (snd (main_profiling stuck_driver (replicate 256 0x01010101)))) =
     calls_of Standard 1 1025 @ calls_of Quad 1 1025 \<and>
   checked_iterations (trace (snd (main_profiling stuck_driver (replicate 256 0x01010101)))) =
     iterations_of Standard 1 1025 @ iterations_of Quad 1 1025"
proof -
  have h1: "init_status stuck_driver = FLASH_OK" by (simp add: stuck_driver_def)
  have h2: "\<forall>sp j. 1 \<le> j \<and> j \<le> MAX_TEST_BUF_LEN \<longrightarrow>
      write_status stuck_driver sp j = FLASH_OK \<and> read_status stuck_driver sp j = FLASH_OK"
    by (simp add: stuck_driver_def)
  have v: "fst (verify 1 (replicate 1024 0) (replicate 256 0x01010101)) = 1"
    by (simp add: verify_def check_words_def last_bytes_def memcpy_def word_bytes_def)
  show ?thesis
    using mismatches_do_not_abort [OF h1 h2, of "replicate 256 0x01010101"] h1 v by simp
qed

lemma first_iteration_sets_flag:
  assumes "\<forall>j. 1 \<le> j \<and> j \<le> MAX_TEST_BUF_LEN \<longrightarrow>
             write_status drv sp j = FLASH_OK \<and> read_status drv sp j = FLASH_OK"
    and "fst (verify 1 (read_data drv sp 1 (flash_data_32 s)) tb) > 0"
    and "profile_loop drv tb sp 1 s = Inr s'"
  shows "flag s' = 1"
proof -
  have le: "1 \<le> MAX_TEST_BUF_LEN" by (simp add: MAX_TEST_BUF_LEN_def)
  with assms(1) have ok: "write_status drv sp 1 = FLASH_OK" "read_status drv sp 1 = FLASH_OK"
    by simp_all
  obtain s1 where s1: "iteration drv tb sp 1 s = Inr s1"
    "flag s1 = (if fst (verify 1 (read_data drv sp 1 (flash_data_32 s)) tb) > 0 then 1 else flag s)"
    by (rule iteration_ok[OF ok, of tb s]) blast
  from assms(1) have rest: "\<forall>j. 1 + 1 \<le> j \<and> j \<le> MAX_TEST_BUF_LEN \<longrightarrow>
      write_status drv sp j = FLASH_OK \<and> read_status drv sp j = FLASH_OK"
    by simp
  from profile_loop_ok[OF rest, of tb s1]
  obtain s2 where s2: "profile_loop drv tb sp (1 + 1) s1 = Inr s2" "flag s1 = 1 \<longrightarrow> flag s2 = 1"
    by blast
  have "profile_loop drv tb sp 1 s = Inr s2"
    using le s1(1) s2(1) by (simp add: profile_loop.simps[of drv tb sp 1 s])
  with assms(3) have "s' = s2" by simp
  with s1(2) s2(2) assms(2) show ?thesis by simp
qed

text \<open>
  C1, evaluated on the code. With \<open>stuck_driver\<close> every driver call returns
  \<open>FLASH_OK\<close>, the first verification already counts one mismatch and \<open>flag\<close> is set,
  and \<open>main\<close> still returns \<open>EXIT_SUCCESS\<close>: the final test reads the outer
  \<open>errors\<close>, which no iteration ever writes.
\<close>

theorem profiling_exit_ignores_mismatches:
  "fst (verify 1 (replicate 1024 0) (replicate 256 0x01010101)) = 1 \<and>
   flag (snd (main_profiling stuck_driver (replicate 256 0x01010101))) = 1 \<and>
   fst (main_profiling stuck_driver (replicate 256 0x01010101)) = EXIT_SUCCESS"
proof -
  let ?tb = "replicate 256 (0x01010101 :: uint32_t)"
  have h1: "init_status stuck_driver = FLASH_OK" by (simp add: stuck_driver_def)
  have h2: "\<forall>sp j. 1 \<le> j \<and> j \<le> MAX_TEST_BUF_LEN \<longrightarrow>
      write_status stuck_driver sp j = FLASH_OK \<and> read_status stuck_driver sp j = FLASH_OK"
    by (simp add: stuck_driver_def)
  have v: "fst (verify 1 (replicate 1024 0) ?tb) = 1"
    by (simp add: verify_def check_words_def last_bytes_def memcpy_def word_bytes_def)
  obtain s1 s2 where r: "profile_loop stuck_driver ?tb Standard 1 (initial_state stuck_driver) = Inr s1"
    "main_profiling stuck_driver ?tb = (EXIT_SUCCESS, emit [PrintVerdict True] s2)"
    "flag s1 = 1 \<longrightarrow> flag s2 = 1"
    by (rule main_all_ok[OF h1 h2, of ?tb]) blast
  have "\<forall>j. 1 \<le> j \<and> j \<le> MAX_TEST_BUF_LEN \<longrightarrow>
      write_status stuck_driver Standard j = FLASH_OK \<and> read_status stuck_driver Standard j = FLASH_OK"
    using h2 by blast
  moreover have "fst (verify 1 (read_data stuck_driver Standard 1 (flash_data_32 (initial_state stuck_driver))) ?tb) > 0"
    using v by (simp add: stuck_driver_def initial_state_def MAX_TEST_BUF_LEN_def)
  ultimately have "flag s1 = 1"
    using r(1) by (rule first_iteration_sets_flag)
  with r(3) have "flag s2 = 1" by simp
  with r(2) v show ?thesis by (simp add: emit_def)
qed


text \<open>
  C9, as the claim states it, fails for a timed operation whose driver call fails: the
  run returns after disabling the counter, and the elapsed ticks are not read.
\<close>

theorem failed_write_skips_timer_read:
  "write_status failing_driver Standard 2 \<noteq> FLASH_OK \<and>
   outcome (timed_write failing_driver Standard 2 (initial_state failing_driver)) =
     (Some EXIT_FAILURE,
      [TimerWriteLower 0, TimerWriteUpper 0, TimerSetEnabled True,
       FlashCall WriteOp Standard 2, TimerSetEnabled False]) \<and>
   timer_reads (snd (outcome (timed_write failing_driver Standard 2 (initial_state failing_driver)))) = []"
  by (simp add: timed_write_outcome failing_driver_def initial_state_def)

text \<open>
  C9, amended. Every timed write and every timed read writes zero to the lower and then
  the upper raw counter register, enables counting, calls the flash driver and disables
  counting. If the call returned \<open>FLASH_OK\<close> it then reads the elapsed ticks as a 64-bit
  value (the ticks that passed during the call) and prints them; otherwise the run
  returns \<open>EXIT_FAILURE\<close> without reading the counter. After the reset both halves are
  zero, and with counting disabled the value read stays 0 however much time passes.
\<close>

theorem timed_operation_steps:
  "outcome (timed_write drv sp i s) =
     (if write_status drv sp i = FLASH_OK then
        (None, trace s @ [TimerWriteLower 0, TimerWriteUpper 0, TimerSetEnabled True,
                          FlashCall WriteOp sp i, TimerSetEnabled False,
                          TimerRead (op_ticks drv WriteOp sp i),
                          PrintTicks WriteOp (op_ticks drv WriteOp sp i)])
      else
        (Some EXIT_FAILURE,
         trace s @ [TimerWriteLower 0, TimerWriteUpper 0, TimerSetEnabled True,
                    FlashCall WriteOp sp i, TimerSetEnabled False])) \<and>
   outcome (timed_read drv sp i s) =
     (if read_status drv sp i = FLASH_OK then
        (None, trace s @ [TimerWriteLower 0, TimerWriteUpper 0, TimerSetEnabled True,
                          FlashCall ReadOp sp i, TimerSetEnabled False,
                          TimerRead (op_ticks drv ReadOp sp i),
                          PrintTicks ReadOp (op_ticks drv ReadOp sp i)])
      else
        (Some EXIT_FAILURE,
         trace s @ [TimerWriteLower 0, TimerWriteUpper 0, TimerSetEnabled True,
                    FlashCall ReadOp sp i, TimerSetEnabled False])) \<and>
   lower (timer_0_1 (reset_timer s)) = 0 \<and> upper (timer_0_1 (reset_timer s)) = 0 \<and>
   (\<not> enabled (timer_0_1 s) \<longrightarrow>
      fst (rv_timer_counter_read (pass_time n (reset_timer s))) = 0)"
proof -
  have "lower (timer_0_1 (reset_timer s)) = 0 \<and> upper (timer_0_1 (reset_timer s)) = 0"
    by (simp add: reset_timer_def emit_def)
  then show ?thesis
    using timed_write_outcome[of drv sp i s] timed_read_outcome[of drv sp i s]
      reset_then_idle_reads_zero[of s n]
    by blast
qed

theorem timed_operation_steps_witness:
  "\<not> enabled (timer_0_1 (initial_state stuck_driver)) \<and>
   fst (rv_timer_counter_read (pass_time 5 (reset_timer (initial_state stuck_driver)))) = 0 \<and>
   outcome (timed_write stuck_driver Standard 1 (initial_state stuck_driver)) =
     (None, [TimerWriteLower 0, TimerWriteUpper 0, TimerSetEnabled True,
             FlashCall WriteOp Standard 1, TimerSetEnabled False, TimerRead 7,
             PrintTicks WriteOp 7])"
proof -
  have h: "\<not> enabled (timer_0_1 (initial_state stuck_driver))"
    by (simp add: initial_state_def stuck_driver_def)
  have d: "write_status stuck_driver sp i = FLASH_OK" "op_ticks stuck_driver opn sp i = 7"
    "trace (initial_state stuck_driver) = []" for sp i opn
    by (simp_all add: stuck_driver_def initial_state_def)
  show ?thesis
    using timed_operation_steps [of stuck_driver Standard 1 "initial_state stuck_driver" 5] h
    by (simp add: d)
qed


end
